theory Spec2Isabelle
  imports Main
begin

section \<open>A Raft peer (src/raft/raft.go): data model\<close>

text \<open>
  The Go type \<open>ServerState\<close> is a string type with the three constants below; no other value
  is ever assigned to \<open>rf.state\<close>.
\<close>

datatype ServerState = Follower | Candidate | Leader

text \<open>
  Go's \<open>int\<close> fields are modelled as \<open>int\<close>: the functions embedded here only compare and copy
  them, apart from \<open>len(rf.log) + 1\<close> in \<open>Start\<close>, which cannot overflow. \<open>Command\<close> is an
  \<open>interface{}\<close> in the source, an opaque value here (the type parameter \<open>'c\<close>).
\<close>

record 'c LogEntry =
  Index :: int
  Term :: int
  Command :: 'c

record 'c RaftPersistence =
  CurrentTerm :: int
  Log :: "'c LogEntry list"
  VotedFor :: string

text \<open>
  The struct \<open>Raft\<close>. Of \<open>peers\<close> only the length is read, so an endpoint is a name.
  \<open>persister\<close> holds what \<open>persist\<close> saved last: the record handed to the gob encoder (the
  byte format of encoding/gob is outside the repository), \<open>None\<close> while nothing was saved.
  \<open>me\<close> is an index into \<open>peers\<close>, a \<open>nat\<close> here. The field \<open>id\<close> is named \<open>raft_id\<close>
  (\<open>id\<close> is the identity function of HOL). \<open>lastHeartBeat\<close> is a time stamp; the clock is
  a parameter of the handler that reads it. The mutex and the channels \<open>sendAppendChan\<close>
  have no counterpart: every function below is one critical section.
\<close>

record 'c Raft =
  peers :: "string list"
  persister :: "'c RaftPersistence option"
  raft_id :: string
  me :: nat
  state :: ServerState
  isDecommissioned :: bool
  currentTerm :: int
  votedFor :: string
  leaderID :: string
  log :: "'c LogEntry list"
  commitIndex :: int
  lastApplied :: int
  nextIndex :: "int list"
  matchIndex :: "int list"
  lastHeartBeat :: int

record RequestVoteArgs =
  rv_Term :: int
  rv_CandidateID :: string
  rv_LastLogIndex :: int
  rv_LastLogTerm :: int

record RequestVoteReply =
  rvr_Term :: int
  rvr_VoteGranted :: bool
  rvr_Id :: string

record 'c AppendEntriesArgs =
  ae_Term :: int
  ae_LeaderID :: string
  ae_PreviousLogIndex :: int
  ae_PreviousLogTerm :: int
  ae_LogEntries :: "'c LogEntry list"
  ae_LeaderCommit :: int

record AppendEntriesReply =
  aer_Term :: int
  aer_Success :: bool
  aer_ConflictingLogTerm :: int
  aer_ConflictingLogIndex :: int

text \<open>A slice read out of range is a run-time panic in Go: the handler does not return.\<close>

datatype error = IndexOutOfRange

section \<open>Helpers\<close>

definition GetState :: "'c Raft \<Rightarrow> int \<times> bool" where
  "GetState rf = (currentTerm rf, state rf = Leader)"

definition getLastEntryInfo :: "'c Raft \<Rightarrow> int \<times> int" where
  "getLastEntryInfo rf =
     (if length (log rf) > 0 then
        (let entry = log rf ! (length (log rf) - 1) in (Index entry, Term entry))
      else (0, 0))"

definition transitionToCandidate :: "'c Raft \<Rightarrow> 'c Raft" where
  "transitionToCandidate rf =
     rf\<lparr>state := Candidate, currentTerm := currentTerm rf + 1, votedFor := raft_id rf\<rparr>"

definition transitionToFollower :: "'c Raft \<Rightarrow> int \<Rightarrow> 'c Raft" where
  "transitionToFollower rf newTerm =
     rf\<lparr>state := Follower, currentTerm := newTerm, votedFor := ''''\<rparr>"

definition persist :: "'c Raft \<Rightarrow> 'c Raft" where
  "persist rf =
     rf\<lparr>persister :=
          Some \<lparr>CurrentTerm = currentTerm rf, Log = log rf, VotedFor = votedFor rf\<rparr>\<rparr>"

definition Kill :: "'c Raft \<Rightarrow> 'c Raft" where
  "Kill rf = rf\<lparr>isDecommissioned := True\<rparr>"

section \<open>RequestVote\<close>

text \<open>
  The reply slot starts as the zero value (\<open>make([]RequestVoteReply, n)\<close> in
  \<open>beginElection\<close>), so \<open>VoteGranted\<close> stays false where no branch assigns it.
\<close>

definition logUpToDate :: "'c Raft \<Rightarrow> RequestVoteArgs \<Rightarrow> bool" where
  "logUpToDate rf args =
     (let (lastIndex, lastTerm) = getLastEntryInfo rf in
      if lastTerm = rv_LastLogTerm args then lastIndex \<le> rv_LastLogIndex args
      else lastTerm < rv_LastLogTerm args)"

definition RequestVote :: "'c Raft \<Rightarrow> RequestVoteArgs \<Rightarrow> 'c Raft \<times> RequestVoteReply" where
  "RequestVote rf args =
     (let upToDate = logUpToDate rf args;
          reply = \<lparr>rvr_Term = currentTerm rf, rvr_VoteGranted = False, rvr_Id = raft_id rf\<rparr>
      in
        if rv_Term args < currentTerm rf then
          (persist rf, reply\<lparr>rvr_VoteGranted := False\<rparr>)
        else if rv_Term args \<ge> currentTerm rf \<and> upToDate then
          (persist ((transitionToFollower rf (rv_Term args))\<lparr>votedFor := rv_CandidateID args\<rparr>),
           reply\<lparr>rvr_VoteGranted := True\<rparr>)
        else if (votedFor rf = '''' \<or> rv_CandidateID args = votedFor rf) \<and> upToDate then
          (persist (rf\<lparr>votedFor := rv_CandidateID args\<rparr>), reply\<lparr>rvr_VoteGranted := True\<rparr>)
        else (persist rf, reply))"

section \<open>AppendEntries\<close>

text \<open>
  Lines 226-236: the search for the entry at \<open>args.PreviousLogIndex\<close>. The loop carries the
  position \<open>i\<close>, the local \<open>prevLogIndex\<close> (\<open>-1\<close> at the start) and
  \<open>reply.ConflictingLogTerm\<close>; it stops at the first entry that matches index and term.
\<close>

fun findPrevious :: "'c LogEntry list \<Rightarrow> int \<Rightarrow> int \<Rightarrow> nat \<Rightarrow> int \<times> int \<Rightarrow> int \<times> int" where
  "findPrevious [] pIndex pTerm i acc = acc"
| "findPrevious (v # vs) pIndex pTerm i (prevLogIndex, conflict) =
     (if Index v = pIndex then
        (if Term v = pTerm then (int i, conflict)
         else findPrevious vs pIndex pTerm (i + 1) (prevLogIndex, Term v))
      else findPrevious vs pIndex pTerm (i + 1) (prevLogIndex, conflict))"

definition entryConsistent :: "'c LogEntry \<Rightarrow> 'c LogEntry \<Rightarrow> bool" where
  "entryConsistent localEntry leadersEntry \<longleftrightarrow>
     Index localEntry = Index leadersEntry \<and> Term localEntry = Term leadersEntry"

text \<open>
  Lines 245-258: the loop over the local entries after the match. It returns the log
  (cut at \<open>i\<close> where the loop breaks) and \<open>entriesIndex\<close>. The test
  \<open>entriesIndex >= len(args.LogEntries)\<close> comes first, so \<open>args.LogEntries[entriesIndex]\<close>
  is read in range.
\<close>

function removeInconsistent ::
  "'c LogEntry list \<Rightarrow> 'c LogEntry list \<Rightarrow> nat \<Rightarrow> nat \<Rightarrow> 'c LogEntry list \<times> nat" where
  "removeInconsistent lg entries i entriesIndex =
     (if i < length lg then
        (if entriesIndex \<ge> length entries \<or> \<not> entryConsistent (lg ! i) (entries ! entriesIndex)
         then (take i lg, entriesIndex)
         else removeInconsistent lg entries (i + 1) (entriesIndex + 1))
      else (lg, entriesIndex))"
  by pat_completeness auto
termination
  by (relation "measure (\<lambda>(lg, entries, i, entriesIndex). length lg - i)") auto

declare removeInconsistent.simps [simp del]

text \<open>Lines 260-263: append what the local log does not hold yet.\<close>

definition appendNew :: "'c LogEntry list \<times> nat \<Rightarrow> 'c LogEntry list \<Rightarrow> 'c LogEntry list" where
  "appendNew r entries =
     (case r of (lg, entriesIndex) \<Rightarrow>
        if entriesIndex < length entries then lg @ drop entriesIndex entries else lg)"

text \<open>
  Lines 265-273: the commit index. \<open>rf.log[len(rf.log)-1]\<close> panics on an empty log.
\<close>

definition updateFollowerCommit :: "'c Raft \<Rightarrow> int \<Rightarrow> error + 'c Raft" where
  "updateFollowerCommit rf leaderCommit =
     (if leaderCommit > commitIndex rf then
        (if length (log rf) = 0 then Inl IndexOutOfRange
         else
           (let latestLogIndex = Index (log rf ! (length (log rf) - 1)) in
            if leaderCommit < latestLogIndex then Inr (rf\<lparr>commitIndex := leaderCommit\<rparr>)
            else Inr (rf\<lparr>commitIndex := latestLogIndex\<rparr>)))
      else Inr rf)"

text \<open>Lines 284-289: the first local index that carries the conflicting term.\<close>

fun firstIndexOfTerm :: "'c LogEntry list \<Rightarrow> int \<Rightarrow> int \<Rightarrow> int" where
  "firstIndexOfTerm [] conflict found = found"
| "firstIndexOfTerm (v # vs) conflict found =
     (if Term v = conflict then Index v else firstIndexOfTerm vs conflict found)"

text \<open>
  Lines 276-291: the rejection. \<open>rf.log[len(rf.log)-1]\<close> panics on an empty log.
\<close>

definition rejectAppend :: "'c Raft \<Rightarrow> AppendEntriesReply \<Rightarrow> error + AppendEntriesReply" where
  "rejectAppend rf reply =
     (if aer_ConflictingLogTerm reply = 0 \<and> length (log rf) = 0 then Inl IndexOutOfRange
      else
        (let reply1 =
               (if aer_ConflictingLogTerm reply = 0
                then reply\<lparr>aer_ConflictingLogTerm := Term (log rf ! (length (log rf) - 1))\<rparr>
                else reply);
             reply2 = reply1\<lparr>aer_ConflictingLogIndex :=
                        firstIndexOfTerm (log rf) (aer_ConflictingLogTerm reply1)
                          (aer_ConflictingLogIndex reply1)\<rparr>
         in Inr (reply2\<lparr>aer_Success := False\<rparr>)))"

text \<open>Lines 212-223: the term check, the step down and the heartbeat time stamp.\<close>

definition acceptLeader :: "int \<Rightarrow> 'c Raft \<Rightarrow> 'c AppendEntriesArgs \<Rightarrow> 'c Raft" where
  "acceptLeader now rf args =
     (let rf1 = (if ae_Term args \<ge> currentTerm rf
                 then (transitionToFollower rf (ae_Term args))\<lparr>leaderID := ae_LeaderID args\<rparr>
                 else rf)
      in if leaderID rf1 = ae_LeaderID args then rf1\<lparr>lastHeartBeat := now\<rparr> else rf1)"

text \<open>
  Lines 225-293: everything after the step down, on the state \<open>rf\<close> it left and the reply
  filled so far. A panic leaves no reply and nothing is persisted: the result is \<open>Inl\<close>.
\<close>

definition processEntries ::
  "'c Raft \<Rightarrow> 'c AppendEntriesArgs \<Rightarrow> AppendEntriesReply \<Rightarrow>
     error + ('c Raft \<times> AppendEntriesReply)" where
  "processEntries rf args reply0 =
     (let (prevLogIndex, conflict) =
            findPrevious (log rf) (ae_PreviousLogIndex args) (ae_PreviousLogTerm args) 0
              (- 1, aer_ConflictingLogTerm reply0);
          reply = reply0\<lparr>aer_ConflictingLogTerm := conflict\<rparr>;
          isBeginningOfLog = (ae_PreviousLogIndex args = 0 \<and> ae_PreviousLogTerm args = 0)
      in
        if prevLogIndex \<ge> 0 \<or> isBeginningOfLog then
          (let lg = appendNew
                      (removeInconsistent (log rf) (ae_LogEntries args) (nat (prevLogIndex + 1)) 0)
                      (ae_LogEntries args)
           in case updateFollowerCommit (rf\<lparr>log := lg\<rparr>) (ae_LeaderCommit args) of
                Inl e \<Rightarrow> Inl e
              | Inr rf' \<Rightarrow> Inr (persist rf', reply\<lparr>aer_Success := True\<rparr>))
        else
          (case rejectAppend rf reply of
             Inl e \<Rightarrow> Inl e
           | Inr reply' \<Rightarrow> Inr (persist rf, reply')))"

text \<open>
  The handler. \<open>now\<close> is the value of \<open>time.Now()\<close>. The reply slot starts as the zero value
  (\<open>AppendEntriesReply{}\<close> in \<open>sendAppendEntries\<close>). A request of an older term returns
  before \<open>persist\<close>.
\<close>

definition AppendEntries ::
  "int \<Rightarrow> 'c Raft \<Rightarrow> 'c AppendEntriesArgs \<Rightarrow> error + ('c Raft \<times> AppendEntriesReply)" where
  "AppendEntries now rf args =
     (let reply = \<lparr>aer_Term = currentTerm rf, aer_Success = False,
                    aer_ConflictingLogTerm = 0, aer_ConflictingLogIndex = 0\<rparr>
      in
        if ae_Term args < currentTerm rf then Inr (rf, reply\<lparr>aer_Success := False\<rparr>)
        else processEntries (acceptLeader now rf args) args reply)"



section \<open>The leader's commit advance\<close>

text \<open>
  Lines 377-385: the loop over the peers \<open>js\<close> with \<open>replicationCount\<close>. It answers whether
  the count passed \<open>len(rf.peers)/2\<close>, which is tested only right after an increment.
  \<open>rf.matchIndex[j]\<close> panics when \<open>matchIndex\<close> is shorter than \<open>peers\<close>; it is not read for
  \<open>j = rf.me\<close>.
\<close>

fun countReplication :: "'c Raft \<Rightarrow> int \<Rightarrow> nat list \<Rightarrow> nat \<Rightarrow> error + bool" where
  "countReplication rf vIndex [] replicationCount = Inr False"
| "countReplication rf vIndex (j # js) replicationCount =
     (if j \<noteq> me rf then
        (if j < length (matchIndex rf) then
           (if matchIndex rf ! j \<ge> vIndex then
              (if replicationCount + 1 > length (peers rf) div 2 then Inr True
               else countReplication rf vIndex js (replicationCount + 1))
            else countReplication rf vIndex js replicationCount)
         else Inl IndexOutOfRange)
      else countReplication rf vIndex js replicationCount)"

text \<open>
  Lines 374-389: the loop over the log from the last position down; the second argument is
  \<open>i + 1\<close>. The inner \<open>break\<close> leaves the loop over the peers only, so the outer loop goes
  on after a commit.
\<close>

fun commitScan :: "'c Raft \<Rightarrow> nat \<Rightarrow> error + 'c Raft" where
  "commitScan rf 0 = Inr rf"
| "commitScan rf (Suc i) =
     (let v = log rf ! i in
      if Term v = currentTerm rf \<and> Index v > commitIndex rf then
        (case countReplication rf (Index v) [0..<length (peers rf)] 1 of
           Inl e \<Rightarrow> Inl e
         | Inr True \<Rightarrow> commitScan (rf\<lparr>commitIndex := Index v\<rparr>) i
         | Inr False \<Rightarrow> commitScan rf i)
      else Inr rf)"

definition updateCommitIndex :: "'c Raft \<Rightarrow> error + 'c Raft" where
  "updateCommitIndex rf = commitScan rf (length (log rf))"

section \<open>Start\<close>

text \<open>
  \<open>Start\<close> reads term and role through \<open>GetState\<close> and then takes the lock again; here both
  happen in one step. The entry read back for the log line, \<open>rf.log[nextIndex-1]\<close>, is the
  one just appended. \<open>Start\<close> does not call \<open>persist\<close>.
\<close>

definition Start :: "'c Raft \<Rightarrow> 'c \<Rightarrow> 'c Raft \<times> (int \<times> int \<times> bool)" where
  "Start rf command =
     (let (term, isLeader) = GetState rf in
      if \<not> isLeader then (rf, (- 1, term, isLeader))
      else
        (let next = (if length (log rf) > 0 then int (length (log rf)) + 1 else 1) in
         (rf\<lparr>log := log rf @ [\<lparr>Index = next, Term = currentTerm rf, Command = command\<rparr>]\<rparr>,
          (next, term, isLeader))))"

section \<open>Notions of the specification\<close>

text \<open>
  Invariant I1 of the data model: log indices are dense and start at 1 (the entry at
  position \<open>i\<close> has index \<open>i + 1\<close>).
\<close>

definition denseLog :: "'c LogEntry list \<Rightarrow> bool" where
  "denseLog lg \<longleftrightarrow> map Index lg = map int [1..<Suc (length lg)]"

text \<open>
  Section 4.7 in the specification's words: the replicas that hold index \<open>n\<close> are the leader
  itself and every peer with \<open>matchIndex[peer] \<ge> n\<close>; an index above \<open>commitIndex\<close> may be
  committed when its entry is of the current term and those replicas are a strict majority
  of the peers.
\<close>

definition replicasHolding :: "'c Raft \<Rightarrow> int \<Rightarrow> nat" where
  "replicasHolding rf n =
     1 + length (filter (\<lambda>j. j \<noteq> me rf \<and> matchIndex rf ! j \<ge> n) [0..<length (peers rf)])"

definition committable :: "'c Raft \<Rightarrow> int \<Rightarrow> bool" where
  "committable rf n \<longleftrightarrow>
     n > commitIndex rf \<and>
     (\<exists>e \<in> set (log rf). Index e = n \<and> Term e = currentTerm rf) \<and>
     2 * replicasHolding rf n > length (peers rf)"

text \<open>
  What the data model says of a leader's state: the log is dense, terms do not decrease
  along the log and none is above \<open>currentTerm\<close>, and \<open>matchIndex\<close> has one slot per peer
  (\<open>promoteToLeader\<close> allocates it so).
\<close>

definition leaderInvariant :: "'c Raft \<Rightarrow> bool" where
  "leaderInvariant rf \<longleftrightarrow>
     denseLog (log rf) \<and>
     sorted (map Term (log rf)) \<and>
     list_all (\<lambda>e. Term e \<le> currentTerm rf) (log rf) \<and>
     length (matchIndex rf) = length (peers rf)"

section \<open>Example states\<close>

text \<open>
  The peer \<open>C\<close> of a cluster of three as \<open>Make\<close> builds it (nothing persisted before), and a
  log entry with a string for its command.
\<close>

definition node0 :: "string Raft" where
  "node0 = \<lparr>peers = [''A'', ''B'', ''C''], persister = None, raft_id = ''C'', me = 2,
            state = Follower, isDecommissioned = False, currentTerm = 0, votedFor = '''',
            leaderID = '''', log = [], commitIndex = 0, lastApplied = 0, nextIndex = [],
            matchIndex = [], lastHeartBeat = 0\<rparr>"

definition entry :: "int \<Rightarrow> int \<Rightarrow> string \<Rightarrow> string LogEntry" where
  "entry i t c = \<lparr>Index = i, Term = t, Command = c\<rparr>"

text \<open>The peer \<open>A\<close> of the same cluster as leader of term 2.\<close>

definition leaderA :: "string Raft" where
  "leaderA = node0\<lparr>raft_id := ''A'', me := 0, state := Leader, currentTerm := 2,
               leaderID := ''A'',
               log := [entry 1 1 ''x'', entry 2 2 ''y'', entry 3 2 ''z''],
               nextIndex := [0, 3, 2], matchIndex := [0, 2, 1]\<rparr>"

section \<open>Lemmas on the handlers' stages\<close>

lemma updateFollowerCommit_Inr:
  assumes "updateFollowerCommit rf lc = Inr rf'"
  shows "\<exists>c. rf' = rf\<lparr>commitIndex := c\<rparr> \<and> min (commitIndex rf) (fst (getLastEntryInfo rf)) \<le> c"
proof (cases "lc > commitIndex rf")
  case False
  with assms have "rf' = rf\<lparr>commitIndex := commitIndex rf\<rparr>"
    by (simp add: updateFollowerCommit_def)
  then show ?thesis by (intro exI [of _ "commitIndex rf"]) simp
next
  case True
  with assms have ne: "length (log rf) \<noteq> 0"
    by (auto simp: updateFollowerCommit_def split: if_splits)
  let ?latest = "Index (log rf ! (length (log rf) - 1))"
  from assms True ne have "rf' = rf\<lparr>commitIndex := min lc ?latest\<rparr>"
    by (auto simp: updateFollowerCommit_def Let_def min_def split: if_splits)
  moreover have "fst (getLastEntryInfo rf) = ?latest"
    using ne by (simp add: getLastEntryInfo_def Let_def)
  ultimately show ?thesis using True by (intro exI [of _ "min lc ?latest"]) simp
qed

lemma acceptLeader_fields:
  assumes "currentTerm rf \<le> ae_Term args"
  shows "acceptLeader now rf args =
     rf\<lparr>state := Follower, currentTerm := ae_Term args, votedFor := '''',
        leaderID := ae_LeaderID args, lastHeartBeat := now\<rparr>"
  using assms by (simp add: acceptLeader_def transitionToFollower_def)


lemma processEntries_Inr:
  assumes "processEntries rf args reply0 = Inr (rf', reply)"
  shows "\<exists>lg c. rf' = persist (rf\<lparr>log := lg, commitIndex := c\<rparr>) \<and>
           min (commitIndex rf) (fst (getLastEntryInfo rf')) \<le> c"
proof -
  obtain p ct where f: "findPrevious (log rf) (ae_PreviousLogIndex args) (ae_PreviousLogTerm args) 0
              (- 1, aer_ConflictingLogTerm reply0) = (p, ct)"
    by (cases "findPrevious (log rf) (ae_PreviousLogIndex args) (ae_PreviousLogTerm args) 0
              (- 1, aer_ConflictingLogTerm reply0)")
  show ?thesis
  proof (cases "0 \<le> p \<or> (ae_PreviousLogIndex args = 0 \<and> ae_PreviousLogTerm args = 0)")
    case True
    let ?lg = "appendNew (removeInconsistent (log rf) (ae_LogEntries args) (nat (p + 1)) 0)
                 (ae_LogEntries args)"
    from assms f True obtain rf1 where
      u: "updateFollowerCommit (rf\<lparr>log := ?lg\<rparr>) (ae_LeaderCommit args) = Inr rf1"
      and r: "rf' = persist rf1"
      by (auto simp: processEntries_def Let_def split: sum.splits)
    from updateFollowerCommit_Inr [OF u] obtain c where
      c: "rf1 = rf\<lparr>log := ?lg, commitIndex := c\<rparr>"
      and m: "min (commitIndex rf) (fst (getLastEntryInfo (rf\<lparr>log := ?lg\<rparr>))) \<le> c"
      by auto
    have "getLastEntryInfo rf' = getLastEntryInfo (rf\<lparr>log := ?lg\<rparr>)"
      by (simp add: r c getLastEntryInfo_def persist_def)
    with r c m show ?thesis by auto
  next
    case False
    with assms f have "rf' = persist rf"
      by (auto simp: processEntries_def Let_def split: sum.splits)
    then have "rf' = persist (rf\<lparr>log := log rf, commitIndex := commitIndex rf\<rparr>)" by simp
    then show ?thesis by (intro exI [of _ "log rf"] exI [of _ "commitIndex rf"]) simp
  qed
qed

lemma processEntries_fields:
  assumes "processEntries rf args reply0 = Inr (rf', reply)"
  shows "state rf' = state rf \<and> votedFor rf' = votedFor rf \<and> currentTerm rf' = currentTerm rf
     \<and> leaderID rf' = leaderID rf"
  using processEntries_Inr [OF assms] by (auto simp: persist_def)

lemma processEntries_commit:
  assumes "processEntries rf args reply0 = Inr (rf', reply)"
  shows "min (commitIndex rf) (fst (getLastEntryInfo rf')) \<le> commitIndex rf'"
  using processEntries_Inr [OF assms] by (auto simp: persist_def)

lemma countReplication_commitIndex [simp]:
  "countReplication (rf\<lparr>commitIndex := c\<rparr>) n js k = countReplication rf n js k"
  by (induction js arbitrary: k) auto

lemma commitScan_Inr:
  assumes "commitScan rf k = Inr rf'"
  shows "\<exists>c. rf' = rf\<lparr>commitIndex := c\<rparr> \<and> commitIndex rf \<le> c"
  using assms
proof (induction k arbitrary: rf)
  case 0
  then have "rf' = rf\<lparr>commitIndex := commitIndex rf\<rparr>" by simp
  then show ?case by (intro exI [of _ "commitIndex rf"]) simp
next
  case (Suc i)
  let ?v = "log rf ! i"
  show ?case
  proof (cases "Term ?v = currentTerm rf \<and> Index ?v > commitIndex rf")
    case False
    with Suc.prems have "rf' = rf\<lparr>commitIndex := commitIndex rf\<rparr>" by (auto simp: Let_def)
    then show ?thesis by (intro exI [of _ "commitIndex rf"]) simp
  next
    case True
    show ?thesis
    proof (cases "countReplication rf (Index ?v) [0..<length (peers rf)] 1")
      case (Inl e)
      with Suc.prems True show ?thesis by (simp add: Let_def)
    next
      case (Inr b)
      show ?thesis
      proof (cases b)
        case False
        with Suc.prems True Inr have "commitScan rf i = Inr rf'" by (simp add: Let_def)
        from Suc.IH [OF this] show ?thesis .
      next
        case b: True
        with Suc.prems True Inr have "commitScan (rf\<lparr>commitIndex := Index ?v\<rparr>) i = Inr rf'"
          by (simp add: Let_def)
        from Suc.IH [OF this] obtain c where
          "rf' = rf\<lparr>commitIndex := c\<rparr>" "Index ?v \<le> c" by auto
        with True show ?thesis by (intro exI [of _ c]) simp
      qed
    qed
  qed
qed



lemma denseLog_nth:
  assumes "denseLog lg" and "i < length lg"
  shows "Index (lg ! i) = int i + 1"
proof -
  have "Index (lg ! i) = map Index lg ! i" using assms(2) by simp
  also have "\<dots> = map int [1..<Suc (length lg)] ! i" using assms(1) by (simp add: denseLog_def)
  also have "\<dots> = int i + 1" using assms(2) by (simp del: upt_Suc)
  finally show ?thesis .
qed

lemma leaderInvariant_dense:
  "leaderInvariant rf \<Longrightarrow> i < length (log rf) \<Longrightarrow> Index (log rf ! i) = int i + 1"
  by (simp add: leaderInvariant_def denseLog_nth)

lemma leaderInvariant_sorted:
  "leaderInvariant rf \<Longrightarrow> i \<le> j \<Longrightarrow> j < length (log rf) \<Longrightarrow>
     Term (log rf ! i) \<le> Term (log rf ! j)"
  using sorted_nth_mono [of "map Term (log rf)" i j] by (simp add: leaderInvariant_def)

lemma leaderInvariant_bound:
  "leaderInvariant rf \<Longrightarrow> i < length (log rf) \<Longrightarrow> Term (log rf ! i) \<le> currentTerm rf"
  by (simp add: leaderInvariant_def list_all_length)

lemma leaderInvariant_matchIndex:
  "leaderInvariant rf \<Longrightarrow> length (matchIndex rf) = length (peers rf)"
  by (simp add: leaderInvariant_def)

lemma countReplication_counts:
  assumes "\<forall>j \<in> set js. j < length (matchIndex rf)"
    and "k \<le> length (peers rf) div 2"
  shows "countReplication rf n js k =
           Inr (length (peers rf) div 2 <
                  k + length (filter (\<lambda>j. j \<noteq> me rf \<and> matchIndex rf ! j \<ge> n) js))"
  using assms
proof (induction js arbitrary: k)
  case Nil
  then show ?case by simp
next
  case (Cons j js)
  show ?case
  proof (cases "j \<noteq> me rf \<and> matchIndex rf ! j \<ge> n")
    case False
    with Cons show ?thesis by auto
  next
    case True
    show ?thesis
    proof (cases "k + 1 > length (peers rf) div 2")
      case over: True
      with True Cons.prems show ?thesis by simp
    next
      case False
      then have "k + 1 \<le> length (peers rf) div 2" by simp
      from Cons.IH [OF _ this] Cons.prems(1) True False show ?thesis by simp
    qed
  qed
qed

lemma countReplication_majority:
  assumes "length (matchIndex rf) = length (peers rf)" and "2 \<le> length (peers rf)"
  shows "countReplication rf n [0..<length (peers rf)] 1 =
           Inr (length (peers rf) < 2 * replicasHolding rf n)"
proof -
  have "1 \<le> length (peers rf) div 2" using assms(2) by simp
  then have "countReplication rf n [0..<length (peers rf)] 1 =
           Inr (length (peers rf) div 2 < replicasHolding rf n)"
    using countReplication_counts [of "[0..<length (peers rf)]" rf 1 n] assms(1)
    by (simp add: replicasHolding_def)
  moreover have "(length (peers rf) div 2 < replicasHolding rf n) =
                 (length (peers rf) < 2 * replicasHolding rf n)"
    by presburger
  ultimately show ?thesis by simp
qed

lemma commitScan_stops:
  assumes "k = 0 \<or> Index (log rf ! (k - 1)) \<le> commitIndex rf"
  shows "commitScan rf k = Inr rf"
  using assms by (cases k) (auto simp: Let_def)

lemma committable_position:
  assumes "leaderInvariant rf" and "committable rf n"
  shows "1 \<le> n \<and> n \<le> int (length (log rf)) \<and> Term (log rf ! nat (n - 1)) = currentTerm rf"
proof -
  from assms(2) obtain e where e: "e \<in> set (log rf)" "Index e = n" "Term e = currentTerm rf"
    by (auto simp: committable_def)
  then obtain i where i: "i < length (log rf)" "log rf ! i = e"
    by (auto simp: in_set_conv_nth)
  with leaderInvariant_dense [OF assms(1), of i] e have "n = int i + 1" by auto
  with i e show ?thesis by auto
qed

lemma commitScan_largest:
  assumes inv: "leaderInvariant rf" and two: "2 \<le> length (peers rf)"
    and "k \<le> length (log rf)"
    and "\<forall>n. committable rf n \<longrightarrow> n \<le> int k"
  shows "\<exists>N. commitScan rf k = Inr (rf\<lparr>commitIndex := N\<rparr>) \<and>
           (if \<exists>n. committable rf n
            then committable rf N \<and> (\<forall>n. committable rf n \<longrightarrow> n \<le> N)
            else N = commitIndex rf)"
  using assms(3,4)
proof (induction k)
  case 0
  have "\<not> committable rf n" for n
    using committable_position [OF inv, of n] 0 by force
  then show ?case by (intro exI [of _ "commitIndex rf"]) simp
next
  case (Suc i)
  let ?v = "log rf ! i"
  from Suc.prems(1) have i: "i < length (log rf)" by simp
  with inv have idx: "Index ?v = int i + 1" by (simp add: leaderInvariant_dense)
  from inv have len: "length (matchIndex rf) = length (peers rf)" by (rule leaderInvariant_matchIndex)
  have le: "n \<le> int i + 1" if "committable rf n" for n
    using Suc.prems(2) that by force
  show ?case
  proof (cases "Term ?v = currentTerm rf \<and> Index ?v > commitIndex rf")
    case True
    show ?thesis
    proof (cases "length (peers rf) < 2 * replicasHolding rf (Index ?v)")
      case maj: True
      have c: "committable rf (Index ?v)"
        using True maj i by (auto simp: committable_def)
      have "commitScan (rf\<lparr>commitIndex := Index ?v\<rparr>) i = Inr (rf\<lparr>commitIndex := Index ?v\<rparr>)"
      proof (rule commitScan_stops)
        show "i = 0 \<or> Index (log (rf\<lparr>commitIndex := Index ?v\<rparr>) ! (i - 1))
                \<le> commitIndex (rf\<lparr>commitIndex := Index ?v\<rparr>)"
        proof (cases "i = 0")
          case False
          with i inv have "Index (log rf ! (i - 1)) = int (i - 1) + 1"
            by (simp add: leaderInvariant_dense)
          with idx False show ?thesis by simp
        qed simp
      qed
      then have "commitScan rf (Suc i) = Inr (rf\<lparr>commitIndex := Index ?v\<rparr>)"
        using True maj countReplication_majority [OF len two, of "Index ?v"] by (simp add: Let_def)
      moreover have "\<forall>n. committable rf n \<longrightarrow> n \<le> Index ?v"
        using le idx by simp
      ultimately show ?thesis using c by (intro exI [of _ "Index ?v"]) auto
    next
      case False
      then have "\<not> committable rf (int i + 1)"
        using idx by (simp add: committable_def)
      have "\<forall>n. committable rf n \<longrightarrow> n \<le> int i"
      proof (intro allI impI)
        fix n assume c: "committable rf n"
        with \<open>\<not> committable rf (int i + 1)\<close> have "n \<noteq> int i + 1" by auto
        with le [OF c] show "n \<le> int i" by simp
      qed
      from Suc.IH [OF _ this] i obtain N where
        N: "commitScan rf i = Inr (rf\<lparr>commitIndex := N\<rparr>)"
           "if \<exists>n. committable rf n
            then committable rf N \<and> (\<forall>n. committable rf n \<longrightarrow> n \<le> N)
            else N = commitIndex rf"
        by auto
      have "commitScan rf (Suc i) = commitScan rf i"
        using True False countReplication_majority [OF len two, of "Index ?v"] by (simp add: Let_def)
      with N show ?thesis by (intro exI [of _ N]) simp
    qed
  next
    case False
    have none: "\<not> committable rf n" for n
    proof
      assume c: "committable rf n"
      from committable_position [OF inv c] have
        n: "1 \<le> n" "n \<le> int (length (log rf))" "Term (log rf ! nat (n - 1)) = currentTerm rf"
        by auto
      from le [OF c] have ni: "n \<le> int i + 1" .
      from c have gt: "commitIndex rf < n" by (simp add: committable_def)
      from n ni have j: "nat (n - 1) \<le> i" by simp
      from inv i j have "Term (log rf ! nat (n - 1)) \<le> Term ?v"
        by (simp add: leaderInvariant_sorted)
      moreover from inv i have "Term ?v \<le> currentTerm rf" by (simp add: leaderInvariant_bound)
      ultimately have "Term ?v = currentTerm rf" using n(3) by simp
      with False have "Index ?v \<le> commitIndex rf" by auto
      with idx ni gt show False by simp
    qed
    from False have "commitScan rf (Suc i) = Inr rf" by (auto simp: Let_def)
    then have "commitScan rf (Suc i) = Inr (rf\<lparr>commitIndex := commitIndex rf\<rparr>)" by simp
    with none show ?thesis by (intro exI [of _ "commitIndex rf"]) simp
  qed
qed


lemma countReplication_total:
  assumes "\<forall>j \<in> set js. j < length (matchIndex rf)"
  shows "\<exists>b. countReplication rf n js k = Inr b"
  using assms by (induction js arbitrary: k) auto

lemma commitScan_total:
  assumes "length (peers rf) \<le> length (matchIndex rf)"
  shows "\<exists>rf'. commitScan rf k = Inr rf'"
  using assms
proof (induction k arbitrary: rf)
  case 0
  then show ?case by simp
next
  case (Suc i)
  have "\<forall>j \<in> set [0..<length (peers rf)]. j < length (matchIndex rf)"
    using Suc.prems by simp
  from countReplication_total [OF this] obtain b where
    b: "countReplication rf (Index (log rf ! i)) [0..<length (peers rf)] 1 = Inr b"
    by blast
  have "\<exists>rf'. commitScan (rf\<lparr>commitIndex := Index (log rf ! i)\<rparr>) i = Inr rf'"
    using Suc.IH [of "rf\<lparr>commitIndex := Index (log rf ! i)\<rparr>"] Suc.prems by simp
  moreover have "\<exists>rf'. commitScan rf i = Inr rf'"
    using Suc.IH [OF Suc.prems] .
  ultimately show ?case using b by (cases b) (auto simp: Let_def)
qed


section \<open>RequestVote: the claims\<close>

text \<open>
  C2. The claim: a RequestVote of the receiver's own term, from a candidate other than the
  one already voted for, is denied and leaves \<open>votedFor\<close> as it is, also when the
  candidate's log is up to date. The code at the input below: peer \<open>C\<close> voted for \<open>A\<close> in
  term 7 and holds an empty log; \<open>B\<close> asks for the vote of term 7. The guard of line 163,
  \<open>args.Term >= rf.currentTerm && logUpToDate\<close>, holds for the equal term too, so the vote
  is granted and \<open>votedFor\<close> becomes \<open>B\<close>: a second vote in term 7. The branch of line 167,
  which reads \<open>votedFor\<close>, is reached only when the log is not up to date, where it denies.
\<close>

theorem RequestVote_second_vote_in_term:
  "RequestVote (node0\<lparr>currentTerm := 7, votedFor := ''A''\<rparr>)
     \<lparr>rv_Term = 7, rv_CandidateID = ''B'', rv_LastLogIndex = 0, rv_LastLogTerm = 0\<rparr> =
   (persist (node0\<lparr>currentTerm := 7, votedFor := ''B''\<rparr>),
    \<lparr>rvr_Term = 7, rvr_VoteGranted = True, rvr_Id = ''C''\<rparr>)"
  by (simp add: RequestVote_def logUpToDate_def getLastEntryInfo_def node0_def
      transitionToFollower_def persist_def)

text \<open>
  C3. The claim: a RequestVote of a higher term makes the receiver a Follower of that term
  before it answers, also when the vote is denied for a log that is not up to date. The
  code at the input below: the leader of term 1 holds one entry and receives a request of
  term 2 from a candidate with an empty log. The step down of line 164 stands behind the
  guard \<open>args.Term >= rf.currentTerm && logUpToDate\<close>, so nothing happens: the receiver
  stays Leader in term 1 and answers with term 1, vote denied.
\<close>

theorem RequestVote_higher_term_no_step_down:
  "RequestVote (node0\<lparr>state := Leader, currentTerm := 1, log := [entry 1 1 ''x'']\<rparr>)
     \<lparr>rv_Term = 2, rv_CandidateID = ''B'', rv_LastLogIndex = 0, rv_LastLogTerm = 0\<rparr> =
   (persist (node0\<lparr>state := Leader, currentTerm := 1, log := [entry 1 1 ''x'']\<rparr>),
    \<lparr>rvr_Term = 1, rvr_VoteGranted = False, rvr_Id = ''C''\<rparr>)"
  by (simp add: RequestVote_def logUpToDate_def getLastEntryInfo_def node0_def entry_def
      transitionToFollower_def persist_def)

section \<open>AppendEntries: the claims\<close>

text \<open>
  C4. The claim: the handler returns a reply on every request, also on an empty log. The
  code on the empty log of a fresh peer: a heartbeat whose previous entry (1, 1) is not in
  the log reaches \<open>rf.log[len(rf.log)-1]\<close> of line 281, and a request that matches at the
  beginning of the log, brings no entry and has \<open>LeaderCommit = 1\<close> reaches the same read
  at line 267. Both panic; \<open>getLastEntryInfo\<close> guards the same read with
  \<open>len(rf.log) > 0\<close>.
\<close>

theorem AppendEntries_empty_log_panics:
  "AppendEntries 5 node0
     \<lparr>ae_Term = 1, ae_LeaderID = ''A'', ae_PreviousLogIndex = 1, ae_PreviousLogTerm = 1,
      ae_LogEntries = [], ae_LeaderCommit = 0\<rparr> = Inl IndexOutOfRange \<and>
   AppendEntries 5 node0
     \<lparr>ae_Term = 1, ae_LeaderID = ''A'', ae_PreviousLogIndex = 0, ae_PreviousLogTerm = 0,
      ae_LogEntries = [], ae_LeaderCommit = 1\<rparr> = Inl IndexOutOfRange"
  by (simp add: AppendEntries_def processEntries_def acceptLeader_def transitionToFollower_def
      node0_def rejectAppend_def updateFollowerCommit_def appendNew_def
      removeInconsistent.simps)




text \<open>
  C10. A request whose term is not older than \<open>currentTerm\<close> is processed on the state
  that \<open>transitionToFollower\<close> left: the search for the previous entry and all that follows
  start with \<open>votedFor\<close> empty, the role Follower and the request's term, also when the
  request's term equals \<open>currentTerm\<close>; and when the handler returns, that is the state it
  leaves.
\<close>

theorem AppendEntries_clears_vote:
  assumes "currentTerm rf \<le> ae_Term args"
  shows "AppendEntries now rf args =
           processEntries (acceptLeader now rf args) args
             \<lparr>aer_Term = currentTerm rf, aer_Success = False,
              aer_ConflictingLogTerm = 0, aer_ConflictingLogIndex = 0\<rparr> \<and>
         votedFor (acceptLeader now rf args) = '''' \<and>
         state (acceptLeader now rf args) = Follower \<and>
         currentTerm (acceptLeader now rf args) = ae_Term args \<and>
         (\<forall>rf' reply. AppendEntries now rf args = Inr (rf', reply) \<longrightarrow>
            votedFor rf' = '''' \<and> state rf' = Follower \<and> currentTerm rf' = ae_Term args)"
proof -
  have a: "AppendEntries now rf args =
           processEntries (acceptLeader now rf args) args
             \<lparr>aer_Term = currentTerm rf, aer_Success = False,
              aer_ConflictingLogTerm = 0, aer_ConflictingLogIndex = 0\<rparr>"
    using assms by (simp add: AppendEntries_def)
  have b: "votedFor (acceptLeader now rf args) = '''' \<and>
           state (acceptLeader now rf args) = Follower \<and>
           currentTerm (acceptLeader now rf args) = ae_Term args"
    by (simp add: acceptLeader_fields [OF assms])
  have "votedFor rf' = '''' \<and> state rf' = Follower \<and> currentTerm rf' = ae_Term args"
    if "AppendEntries now rf args = Inr (rf', reply)" for rf' reply
    using processEntries_fields [of "acceptLeader now rf args" args _ rf' reply] that a b
    by simp
  with a b show ?thesis by blast
qed

text \<open>
  An instance: peer \<open>C\<close> voted for \<open>B\<close> in term 3 as a candidate's voter; a heartbeat of
  the leader \<open>A\<close> of the same term 3 erases the vote.
\<close>

theorem AppendEntries_clears_vote_witness:
  "AppendEntries 5 (node0\<lparr>state := Candidate, currentTerm := 3, votedFor := ''B''\<rparr>)
     \<lparr>ae_Term = 3, ae_LeaderID = ''A'', ae_PreviousLogIndex = 0, ae_PreviousLogTerm = 0,
      ae_LogEntries = [], ae_LeaderCommit = 0\<rparr> =
   Inr (persist (node0\<lparr>currentTerm := 3, leaderID := ''A'', lastHeartBeat := 5\<rparr>),
        \<lparr>aer_Term = 3, aer_Success = True, aer_ConflictingLogTerm = 0,
         aer_ConflictingLogIndex = 0\<rparr>) \<and>
   votedFor (persist (node0\<lparr>currentTerm := 3, leaderID := ''A'', lastHeartBeat := 5\<rparr>)) = ''''"
proof -
  let ?rf = "node0\<lparr>state := Candidate, currentTerm := 3, votedFor := ''B''\<rparr>"
  let ?args = "\<lparr>ae_Term = 3, ae_LeaderID = ''A'', ae_PreviousLogIndex = 0,
                ae_PreviousLogTerm = 0, ae_LogEntries = ([] :: string LogEntry list),
                ae_LeaderCommit = 0\<rparr>"
  have h: "currentTerm ?rf \<le> ae_Term ?args" by simp
  have r: "AppendEntries 5 ?rf ?args =
     Inr (persist (node0\<lparr>currentTerm := 3, leaderID := ''A'', lastHeartBeat := 5\<rparr>),
        \<lparr>aer_Term = 3, aer_Success = True, aer_ConflictingLogTerm = 0,
         aer_ConflictingLogIndex = 0\<rparr>)"
    by (simp add: AppendEntries_def processEntries_def acceptLeader_def
        transitionToFollower_def node0_def updateFollowerCommit_def appendNew_def
        persist_def removeInconsistent.simps Let_def)
  from AppendEntries_clears_vote [OF h, of 5] r show ?thesis by simp
qed

section \<open>The commit index: the claims\<close>

text \<open>
  C5, as the code has it. When \<open>AppendEntries\<close> returns, \<open>commitIndex\<close> is not below the
  smaller of its old value and the index of the last entry of the log the handler leaves
  (0 for an empty log): it does not decrease as long as the log still reaches the old
  \<open>commitIndex\<close>. \<open>updateCommitIndex\<close> returns whenever \<open>matchIndex\<close> has a slot for every
  peer, changes nothing but \<open>commitIndex\<close> and never lowers it.
\<close>

theorem commitIndex_lower_bound:
  "(\<forall>rf' reply. AppendEntries now rf args = Inr (rf', reply) \<longrightarrow>
      min (commitIndex rf) (fst (getLastEntryInfo rf')) \<le> commitIndex rf' \<and>
      (commitIndex rf \<le> fst (getLastEntryInfo rf') \<longrightarrow> commitIndex rf \<le> commitIndex rf')) \<and>
   (\<forall>rf'. updateCommitIndex rf = Inr rf' \<longrightarrow>
      commitIndex rf \<le> commitIndex rf' \<and> rf' = rf\<lparr>commitIndex := commitIndex rf'\<rparr>) \<and>
   (length (peers rf) \<le> length (matchIndex rf) \<longrightarrow> (\<exists>rf'. updateCommitIndex rf = Inr rf'))"
proof -
  have a: "min (commitIndex rf) (fst (getLastEntryInfo rf')) \<le> commitIndex rf'"
    if r: "AppendEntries now rf args = Inr (rf', reply)" for rf' reply
  proof (cases "ae_Term args < currentTerm rf")
    case True
    with r show ?thesis by (auto simp: AppendEntries_def)
  next
    case False
    with r have "processEntries (acceptLeader now rf args) args
             \<lparr>aer_Term = currentTerm rf, aer_Success = False,
              aer_ConflictingLogTerm = 0, aer_ConflictingLogIndex = 0\<rparr> = Inr (rf', reply)"
      by (simp add: AppendEntries_def)
    from processEntries_commit [OF this] False show ?thesis
      by (simp add: acceptLeader_fields)
  qed
  have b: "commitIndex rf \<le> commitIndex rf' \<and> rf' = rf\<lparr>commitIndex := commitIndex rf'\<rparr>"
    if "updateCommitIndex rf = Inr rf'" for rf'
    using commitScan_Inr [of rf "length (log rf)" rf'] that
    by (auto simp: updateCommitIndex_def)
  have c: "\<exists>rf'. updateCommitIndex rf = Inr rf'"
    if "length (peers rf) \<le> length (matchIndex rf)"
    using commitScan_total [OF that] by (simp add: updateCommitIndex_def)
  have a': "commitIndex rf \<le> commitIndex rf'"
    if "AppendEntries now rf args = Inr (rf', reply)"
      and "commitIndex rf \<le> fst (getLastEntryInfo rf')" for rf' reply
    using a [OF that(1)] that(2) by simp
  from a a' b c show ?thesis by blast
qed

text \<open>
  An instance: the follower holds the entries 1 and 2 with \<open>commitIndex = 1\<close>; the leader
  sends entry 3 and \<open>LeaderCommit = 3\<close>: \<open>commitIndex\<close> becomes 3. The leader \<open>A\<close> of the
  examples, with entry 2 on two of three replicas, moves \<open>commitIndex\<close> from 0 to 2.
\<close>

theorem commitIndex_lower_bound_witness:
  "AppendEntries 5
     (node0\<lparr>currentTerm := 1, log := [entry 1 1 ''x'', entry 2 1 ''y''], commitIndex := 1\<rparr>)
     \<lparr>ae_Term = 1, ae_LeaderID = ''A'', ae_PreviousLogIndex = 2, ae_PreviousLogTerm = 1,
      ae_LogEntries = [entry 3 1 ''z''], ae_LeaderCommit = 3\<rparr> =
   Inr (persist (node0\<lparr>currentTerm := 1, leaderID := ''A'',
                       log := [entry 1 1 ''x'', entry 2 1 ''y'', entry 3 1 ''z''],
                       commitIndex := 3, lastHeartBeat := 5\<rparr>),
        \<lparr>aer_Term = 1, aer_Success = True, aer_ConflictingLogTerm = 0,
         aer_ConflictingLogIndex = 0\<rparr>) \<and>
   (1 :: int) \<le> commitIndex (persist (node0\<lparr>currentTerm := 1, leaderID := ''A'',
                       log := [entry 1 1 ''x'', entry 2 1 ''y'', entry 3 1 ''z''],
                       commitIndex := 3, lastHeartBeat := 5\<rparr>)) \<and>
   updateCommitIndex leaderA = Inr (leaderA\<lparr>commitIndex := 2\<rparr>) \<and>
   commitIndex leaderA \<le> commitIndex (leaderA\<lparr>commitIndex := 2\<rparr>)"
proof -
  let ?rf = "node0\<lparr>currentTerm := 1, log := [entry 1 1 ''x'', entry 2 1 ''y''],
                   commitIndex := 1\<rparr>"
  let ?args = "\<lparr>ae_Term = 1, ae_LeaderID = ''A'', ae_PreviousLogIndex = 2,
                ae_PreviousLogTerm = 1, ae_LogEntries = [entry 3 1 ''z''],
                ae_LeaderCommit = 3\<rparr>"
  let ?rf' = "persist (node0\<lparr>currentTerm := 1, leaderID := ''A'',
                       log := [entry 1 1 ''x'', entry 2 1 ''y'', entry 3 1 ''z''],
                       commitIndex := 3, lastHeartBeat := 5\<rparr>)"
  have r: "AppendEntries 5 ?rf ?args =
     Inr (?rf', \<lparr>aer_Term = 1, aer_Success = True, aer_ConflictingLogTerm = 0,
         aer_ConflictingLogIndex = 0\<rparr>)"
    by (simp add: AppendEntries_def processEntries_def acceptLeader_def
        transitionToFollower_def node0_def entry_def updateFollowerCommit_def appendNew_def
        persist_def removeInconsistent.simps Let_def)
  have l: "commitIndex ?rf \<le> fst (getLastEntryInfo ?rf')"
    by (simp add: getLastEntryInfo_def persist_def node0_def entry_def Let_def)
  have u: "updateCommitIndex leaderA = Inr (leaderA\<lparr>commitIndex := 2\<rparr>)"
    by (simp add: updateCommitIndex_def leaderA_def node0_def entry_def Let_def
        numeral_3_eq_3 upt_rec)
  from commitIndex_lower_bound [of 5 ?rf ?args] r l
  have "commitIndex ?rf \<le> commitIndex ?rf'" by blast
  moreover from commitIndex_lower_bound [of _ leaderA] u
  have "commitIndex leaderA \<le> commitIndex (leaderA\<lparr>commitIndex := 2\<rparr>)" by blast
  ultimately show ?thesis using r u by simp
qed

text \<open>
  C5 as stated fails: the follower holds the entries 1, 2 and 3 of term 1 with
  \<open>commitIndex = 3\<close>. A request of term 2 matches entry 1, brings an entry 2 of term 2 and
  \<open>LeaderCommit = 5\<close>. The log is cut and ends at index 2, and \<open>commitIndex\<close> becomes
  \<open>min(5, 2) = 2\<close>, below 3.
\<close>

theorem AppendEntries_commitIndex_decreases:
  "AppendEntries 5
     (node0\<lparr>currentTerm := 1, log := [entry 1 1 ''x'', entry 2 1 ''y'', entry 3 1 ''z''],
            commitIndex := 3\<rparr>)
     \<lparr>ae_Term = 2, ae_LeaderID = ''A'', ae_PreviousLogIndex = 1, ae_PreviousLogTerm = 1,
      ae_LogEntries = [entry 2 2 ''w''], ae_LeaderCommit = 5\<rparr> =
   Inr (persist (node0\<lparr>currentTerm := 2, leaderID := ''A'',
                       log := [entry 1 1 ''x'', entry 2 2 ''w''],
                       commitIndex := 2, lastHeartBeat := 5\<rparr>),
        \<lparr>aer_Term = 1, aer_Success = True, aer_ConflictingLogTerm = 0,
         aer_ConflictingLogIndex = 0\<rparr>)"
  by (simp add: AppendEntries_def processEntries_def acceptLeader_def
      transitionToFollower_def node0_def entry_def updateFollowerCommit_def appendNew_def
      persist_def removeInconsistent.simps entryConsistent_def Let_def)

text \<open>
  C6. The commit advance runs on a leader, in a cluster of at least two peers: a peer loop
  calls it (\<open>sendAppendEntries\<close>, started by \<open>promoteToLeader\<close> for every peer but the
  leader itself), and with one peer no election ends (\<open>beginElection\<close> waits for a reply
  that nobody sends). On a leader's state as the data model describes it,
  \<open>updateCommitIndex\<close> returns and changes nothing but \<open>commitIndex\<close>. It sets
  \<open>commitIndex\<close> to an index only if that index is above \<open>commitIndex\<close>, its entry is of
  the current term and it is held by a strict majority of the peers (the leader and the
  peers with \<open>matchIndex \<ge>\<close> that index); when there is such an index the new
  \<open>commitIndex\<close> is the largest one, and otherwise \<open>commitIndex\<close> is unchanged.
\<close>

theorem updateCommitIndex_largest_committable:
  assumes "leaderInvariant rf" and "2 \<le> length (peers rf)"
  shows "\<exists>N. updateCommitIndex rf = Inr (rf\<lparr>commitIndex := N\<rparr>) \<and>
           (if \<exists>n. committable rf n
            then committable rf N \<and> (\<forall>n. committable rf n \<longrightarrow> n \<le> N)
            else N = commitIndex rf)"
proof -
  have "\<forall>n. committable rf n \<longrightarrow> n \<le> int (length (log rf))"
    using committable_position [OF assms(1)] by blast
  from commitScan_largest [OF assms _ this] show ?thesis
    by (simp add: updateCommitIndex_def)
qed

text \<open>
  An instance: the leader \<open>A\<close> of term 2 holds the entries 1 (term 1), 2 and 3 (term 2),
  with \<open>matchIndex = [_, 2, 1]\<close> and \<open>commitIndex = 0\<close>. Index 3 is on the leader only,
  index 2 on two replicas of three: \<open>commitIndex\<close> becomes 2.
\<close>

theorem updateCommitIndex_largest_committable_witness:
  "leaderInvariant leaderA \<and> committable leaderA 2 \<and> \<not> committable leaderA 3 \<and>
   updateCommitIndex leaderA = Inr (leaderA\<lparr>commitIndex := 2\<rparr>)"
proof -
  have inv: "leaderInvariant leaderA"
    by (simp add: leaderInvariant_def denseLog_def leaderA_def node0_def entry_def
        numeral_3_eq_3 upt_rec)
  have two: "2 \<le> length (peers leaderA)"
    by (simp add: leaderA_def node0_def)
  have c2: "committable leaderA 2"
    by (simp add: committable_def replicasHolding_def leaderA_def node0_def entry_def
        numeral_3_eq_3 upt_rec)
  have c3: "\<not> committable leaderA 3"
    by (simp add: committable_def replicasHolding_def leaderA_def node0_def entry_def
        numeral_3_eq_3 upt_rec)
  have only: "n = 1 \<or> n = 2 \<or> n = 3" if "committable leaderA n" for n
    using that by (auto simp: committable_def leaderA_def node0_def entry_def)
  from updateCommitIndex_largest_committable [OF inv two] obtain N where
    u: "updateCommitIndex leaderA = Inr (leaderA\<lparr>commitIndex := N\<rparr>)" and
    i: "if \<exists>n. committable leaderA n
        then committable leaderA N \<and> (\<forall>n. committable leaderA n \<longrightarrow> n \<le> N)
        else N = commitIndex leaderA"
    by blast
  from c2 have "\<exists>n. committable leaderA n" by blast
  with i have cN: "committable leaderA N" and le: "\<forall>n. committable leaderA n \<longrightarrow> n \<le> N"
    by simp_all
  from le c2 have "2 \<le> N" by blast
  with only [OF cN] c3 cN have "N = 2" by auto
  with u inv c2 c3 show ?thesis by simp
qed

section \<open>Start: the claims\<close>



text \<open>
  C7, as the code has it. \<open>Kill\<close> sets \<open>isDecommissioned\<close> and nothing else, and \<open>Start\<close>
  never reads that flag: after \<open>Kill\<close>, \<open>Start\<close> returns what it returns without \<open>Kill\<close>
  and changes the state in the same way. A peer that is not Leader answers
  \<open>(-1, currentTerm, false)\<close> and changes nothing; a peer that was Leader when it was
  killed still appends the entry and answers with its index, \<open>currentTerm\<close> and \<open>true\<close>.
\<close>

theorem Start_ignores_Kill:
  "Start (Kill rf) command = (case Start rf command of (rf', r) \<Rightarrow> (Kill rf', r)) \<and>
   (state rf \<noteq> Leader \<longrightarrow>
      Start (Kill rf) command = (Kill rf, (- 1, currentTerm rf, False))) \<and>
   (state rf = Leader \<longrightarrow>
      Start (Kill rf) command =
        ((Kill rf)\<lparr>log := log rf @ [\<lparr>Index = int (length (log rf)) + 1,
                                      Term = currentTerm rf, Command = command\<rparr>]\<rparr>,
         (int (length (log rf)) + 1, currentTerm rf, True)))"
  by (simp add: Start_def GetState_def Kill_def Let_def)

text \<open>
  Instances: the killed follower \<open>C\<close> refuses; the killed leader \<open>A\<close> appends entry 4.
\<close>

theorem Start_ignores_Kill_witness:
  "Start (Kill node0) ''w'' = (Kill node0, (- 1, 0, False)) \<and>
   Start (Kill leaderA) ''w'' =
     ((Kill leaderA)\<lparr>log := [entry 1 1 ''x'', entry 2 2 ''y'', entry 3 2 ''z'',
                               entry 4 2 ''w'']\<rparr>,
      (4, 2, True))"
proof -
  have f: "state node0 \<noteq> Leader" by (simp add: node0_def)
  have l: "state leaderA = Leader" by (simp add: leaderA_def)
  have "Start (Kill node0) ''w'' = (Kill node0, (- 1, currentTerm node0, False))"
    using Start_ignores_Kill [of node0 "''w''"] f by blast
  moreover have "Start (Kill leaderA) ''w'' =
        ((Kill leaderA)\<lparr>log := log leaderA @ [\<lparr>Index = int (length (log leaderA)) + 1,
                                      Term = currentTerm leaderA, Command = ''w''\<rparr>]\<rparr>,
         (int (length (log leaderA)) + 1, currentTerm leaderA, True))"
    using Start_ignores_Kill [of leaderA "''w''"] l by blast
  ultimately show ?thesis by (simp add: leaderA_def node0_def entry_def)
qed

text \<open>
  C7 as stated fails: the leader of term 1 with an empty log is killed; \<open>Start\<close> then
  appends entry 1 and returns \<open>(1, 1, true)\<close>, not \<open>(-1, 1, false)\<close>.
\<close>

theorem Start_after_Kill_appends:
  "isDecommissioned (Kill (node0\<lparr>state := Leader, currentTerm := 1\<rparr>)) \<and>
   Start (Kill (node0\<lparr>state := Leader, currentTerm := 1\<rparr>)) ''x'' =
     (node0\<lparr>state := Leader, isDecommissioned := True, currentTerm := 1,
            log := [entry 1 1 ''x'']\<rparr>,
      (1, 1, True))"
  by (simp add: Start_def GetState_def Kill_def node0_def entry_def Let_def)

end
